theory Spec2Isabelle
  imports Main "HOL-Library.Char_ord" "HOL-Library.List_Lexorder"
begin

section \<open>Python strings\<close>

text \<open>
  A Python \<open>str\<close> is a \<open>string\<close>: one \<open>char\<close> stands for one character (the
  characters below 256), so \<open>length\<close> and \<open>take\<close> count what Python's \<open>len\<close> and
  slicing count.
\<close>

text \<open>\<open>s.startswith(p)\<close>\<close>

fun startswith :: "string \<Rightarrow> string \<Rightarrow> bool" where
  "startswith s [] = True"
| "startswith [] (p # ps) = False"
| "startswith (c # cs) (p # ps) = (c = p \<and> startswith cs ps)"

text \<open>\<open>sub in s\<close>: the substring test, tried at every position from the left.\<close>

fun contains :: "string \<Rightarrow> string \<Rightarrow> bool" where
  "contains sub [] = (sub = [])"
| "contains sub (c # cs) = (startswith (c # cs) sub \<or> contains sub cs)"

text \<open>
  \<open>s.lower()\<close>: the letters \<open>A\<close> to \<open>Z\<close> go to \<open>a\<close> to \<open>z\<close>, the capital letters
  0xC0 to 0xDE (the multiplication sign 0xD7 apart) to the letter 32 places further; every
  other character is kept.
\<close>

definition lower_char :: "char \<Rightarrow> char" where
  "lower_char c =
     (case map_of (zip ''ABCDEFGHIJKLMNOPQRSTUVWXYZ'' ''abcdefghijklmnopqrstuvwxyz'') c of
        Some l \<Rightarrow> l
      | None \<Rightarrow>
          if (192::nat) \<le> of_char c \<and> (of_char c :: nat) \<le> 222 \<and> (of_char c :: nat) \<noteq> 215
          then char_of (of_char c + (32::nat))
          else c)"

definition lower :: "string \<Rightarrow> string" where
  "lower s = map lower_char s"

section \<open>The combination generator\<close>

definition letters :: string where
  "letters = ''ABCDEFGHIJKLMNOPQRSTUVWXYZ''"

text \<open>\<open>[a + b for a in letters for b in letters]\<close>\<close>

definition two_letters :: "string \<Rightarrow> string list" where
  "two_letters ls = concat (map (\<lambda>a. map (\<lambda>b. [a, b]) ls) ls)"

definition generate_combinations :: "string list" where
  "generate_combinations = two_letters letters"

section \<open>The response classifier\<close>

definition error_sentinel :: string where
  "error_sentinel = ''__ERROR__''"

definition blocked_phrase :: string where
  "blocked_phrase = ''You have reached the maximum plate preview attempts''"

definition issued_phrase :: string where
  "issued_phrase = ''Plate is issued''"

definition parse_status :: "string \<Rightarrow> string \<times> string" where
  "parse_status response_text =
     (if startswith response_text error_sentinel then (''error'', response_text)
      else if contains blocked_phrase response_text then (''blocked'', ''rate-limited'')
      else if contains issued_phrase response_text then (''issued'', '''')
      else if contains ''available'' (lower response_text) then (''available'', '''')
      else (''unknown'', take 200 response_text))"

section \<open>The result store\<close>

text \<open>
  The data file is what the UTF-8 codec finds in its bytes, in order: a character, or
  bytes that are no character (a sequence that is cut short or out of place). It is
  \<open>None\<close> while the file does not exist. What lies outside the program is an argument:
  whether the operating system refuses the write, what the clock reads, and \<open>json.loads\<close>.
\<close>

datatype stored = Character char | Undecodable

datatype json = JNull | JBool bool | JNumber string | JString string
  | JArray "json list" | JObject "(string \<times> json) list"

text \<open>
  What \<open>json.loads\<close> does with a text: it returns a value, it raises \<open>JSONDecodeError\<close>,
  or it raises something else (\<open>RecursionError\<close> on deep nesting, a plain \<open>ValueError\<close>
  on an integer of too many digits).
\<close>

datatype decoded = Value json | JSONDecodeError | OtherError

fun value_of :: "decoded \<Rightarrow> json option" where
  "value_of (Value v) = Some v"
| "value_of JSONDecodeError = None"
| "value_of OtherError = None"

text \<open>The exceptions of the write and of \<open>time.sleep\<close>.\<close>

datatype error = OSError | ValueError

definition LF :: char where "LF = CHR 0x0A"
definition CR :: char where "CR = CHR 0x0D"
definition quote :: char where "quote = CHR 0x22"
definition backslash :: char where "backslash = CHR 0x5C"

text \<open>
  \<open>json.dumps(record, ensure_ascii=False)\<close> on a dict whose values are strings: the quote,
  the backslash and the characters below 0x20 are escaped, everything else is written as
  it is; members are separated by \<open>", "\<close>, key and value by \<open>": "\<close>.
\<close>

definition hex_digit :: "nat \<Rightarrow> char" where
  "hex_digit n = ''0123456789abcdef'' ! (n mod 16)"

definition escape_char :: "char \<Rightarrow> string" where
  "escape_char c =
     (if c = backslash then [backslash, backslash]
      else if c = quote then [backslash, quote]
      else if c = CHR 0x08 then [backslash, CHR ''b'']
      else if c = CHR 0x0C then [backslash, CHR ''f'']
      else if c = LF then [backslash, CHR ''n'']
      else if c = CR then [backslash, CHR ''r'']
      else if c = CHR 0x09 then [backslash, CHR ''t'']
      else if (of_char c :: nat) < 32
        then [backslash, CHR ''u'', CHR ''0'', CHR ''0'',
              hex_digit (of_char c div 16), hex_digit (of_char c mod 16)]
      else [c])"

definition json_string :: "string \<Rightarrow> string" where
  "json_string s = [quote] @ concat (map escape_char s) @ [quote]"

fun json_members :: "(string \<times> string) list \<Rightarrow> string" where
  "json_members [] = []"
| "json_members [(k, v)] = json_string k @ '': '' @ json_string v"
| "json_members ((k, v) # m # ms) =
     json_string k @ '': '' @ json_string v @ '', '' @ json_members (m # ms)"

definition json_dumps :: "(string \<times> string) list \<Rightarrow> string" where
  "json_dumps d = ''{'' @ json_members d @ ''}''"

text \<open>The value \<open>json.loads\<close> gives back for such a dict.\<close>

definition json_of_dict :: "(string \<times> string) list \<Rightarrow> json" where
  "json_of_dict d = JObject (map (\<lambda>(k, v). (k, JString v)) d)"

text \<open>The dict \<open>record\<close> that \<open>save_result\<close> builds.\<close>

definition make_record :: "string \<Rightarrow> string \<Rightarrow> string \<Rightarrow> string \<Rightarrow> (string \<times> string) list" where
  "make_record plate status note now =
     [(''plate'', plate), (''status'', status), (''note'', note), (''checked_at'', now)]"

text \<open>The content of the data file, empty while the file does not exist.\<close>

fun content_of :: "stored list option \<Rightarrow> stored list" where
  "content_of None = []"
| "content_of (Some items) = items"

text \<open>
  \<open>save_result\<close>: \<open>fails\<close> says that \<open>os.makedirs\<close>, \<open>open\<close> or \<open>write\<close> raises, \<open>now\<close>
  is \<open>datetime.now().isoformat(timespec="seconds")\<close>. Mode \<open>"a"\<close> creates the file and
  writes after what is there.
\<close>

definition save_result ::
  "bool \<Rightarrow> string \<Rightarrow> stored list option \<Rightarrow> string \<Rightarrow> string \<Rightarrow> string
    \<Rightarrow> error + stored list option" where
  "save_result fails now data_file plate status note =
     (let record = make_record plate status note now
      in if fails then Inl OSError
         else Inr (Some (content_of data_file @ map Character (json_dumps record @ [LF]))))"

text \<open>
  Reading the file as text, \<open>open(DATA_FILE, "r", encoding="utf-8")\<close>: bytes that are no
  character raise \<open>UnicodeDecodeError\<close> where the lines are read, outside the \<open>try\<close>.
  \<open>None\<close> is that exception.
\<close>

fun decode :: "stored list \<Rightarrow> string option" where
  "decode [] = Some []"
| "decode (Character c # items) = map_option ((#) c) (decode items)"
| "decode (Undecodable # items) = None"

text \<open>
  \<open>for line in f\<close> on a file opened in text mode: a line ends at \<open>\n\<close>, \<open>\r\n\<close> or
  \<open>\r\<close>, each read as \<open>\n\<close>; the last line may have no end. \<open>cr\<close> says that the previous
  character was a \<open>\r\<close>.
\<close>

fun readlines_from :: "bool \<Rightarrow> string \<Rightarrow> string \<Rightarrow> string list" where
  "readlines_from cr cur [] = (if cur = [] then [] else [cur])"
| "readlines_from cr cur (c # cs) =
     (if c = LF then
        (if cr then readlines_from False cur cs
         else (cur @ [LF]) # readlines_from False [] cs)
      else if c = CR then (cur @ [LF]) # readlines_from True [] cs
      else readlines_from False (cur @ [c]) cs)"

definition readlines :: "string \<Rightarrow> string list" where
  "readlines text = readlines_from False [] text"

text \<open>\<open>str.isspace\<close> on one character, and \<open>line.strip()\<close>.\<close>

definition isspace :: "char \<Rightarrow> bool" where
  "isspace c = ((of_char c :: nat) \<in> {9, 10, 11, 12, 13, 28, 29, 30, 31, 32, 133, 160})"

definition strip :: "string \<Rightarrow> string" where
  "strip s = rev (dropWhile isspace (rev (dropWhile isspace s)))"

text \<open>
  The loop of \<open>load_results\<close>, \<open>rows\<close> being the list built so far. Only
  \<open>JSONDecodeError\<close> is caught; any other exception of \<open>json.loads\<close> leaves the loop and
  the function, which is the result \<open>None\<close>.
\<close>

fun read_rows :: "(string \<Rightarrow> decoded) \<Rightarrow> string list \<Rightarrow> json list \<Rightarrow> json list option" where
  "read_rows loads [] rows = Some rows"
| "read_rows loads (l # ls) rows =
     (let line = strip l
      in if line = [] then read_rows loads ls rows
         else (case loads line of
                 Value v \<Rightarrow> read_rows loads ls (rows @ [v])
               | JSONDecodeError \<Rightarrow> read_rows loads ls rows
               | OtherError \<Rightarrow> None))"

text \<open>\<open>rows[:limit]\<close>: a negative \<open>limit\<close> counts from the end.\<close>

definition slice_to :: "'a list \<Rightarrow> int \<Rightarrow> 'a list" where
  "slice_to rows limit =
     (if 0 \<le> limit then take (nat limit) rows
      else take (nat (int (length rows) + limit)) rows)"

text \<open>
  \<open>load_results\<close> returns the rows, or \<open>None\<close> when an exception leaves it: the one of
  the codec or one of \<open>json.loads\<close> that is not caught.
\<close>

definition load_results ::
  "(string \<Rightarrow> decoded) \<Rightarrow> stored list option \<Rightarrow> int option \<Rightarrow> json list option" where
  "load_results loads data_file limit =
     (case data_file of
        None \<Rightarrow> Some []
      | Some items \<Rightarrow>
          (case decode items of
             None \<Rightarrow> None
           | Some text \<Rightarrow>
               (case read_rows loads (readlines text) [] of
                  None \<Rightarrow> None
                | Some found \<Rightarrow>
                    (let rows = rev found
                     in Some (case limit of
                                None \<Rightarrow> rows
                              | Some n \<Rightarrow> if n \<noteq> 0 then slice_to rows n else rows)))))"

text \<open>
  A sequence of calls of \<open>save_result\<close>, each with what the operating system and the
  clock answer; the first exception ends it.
\<close>

type_synonym call = "bool \<times> string \<times> string \<times> string \<times> string"

fun record_of :: "call \<Rightarrow> (string \<times> string) list" where
  "record_of (fails, now, plate, status, note) = make_record plate status note now"

fun save_all :: "stored list option \<Rightarrow> call list \<Rightarrow> error + stored list option" where
  "save_all file [] = Inr file"
| "save_all file ((fails, now, plate, status, note) # calls) =
     (case save_result fails now file plate status note of
        Inl err \<Rightarrow> Inl err
      | Inr file' \<Rightarrow> save_all file' calls)"

subsection \<open>A decoder for the records of the store\<close>

text \<open>
  An instance of \<open>json.loads\<close> for the examples: it reads a JSON object whose members
  are strings, with JSON's white space and escapes, and raises \<open>JSONDecodeError\<close> on any
  other text. The characters of the model are those below 256, so a \<open>\u\<close> escape beyond
  them is refused as well.
\<close>

datatype token = LBrace | RBrace | Colon | Comma | Str string

datatype lex_state = Outside | Inside string | Escaped string | Unicode string "nat list"

definition json_ws :: "char \<Rightarrow> bool" where
  "json_ws c = (c = CHR '' '' \<or> c = CHR 0x09 \<or> c = LF \<or> c = CR)"

definition hex_value :: "char \<Rightarrow> nat option" where
  "hex_value c =
     map_of (zip ''0123456789abcdefABCDEF''
                 [0, 1, 2, 3, 4, 5, 6, 7, 8, 9, 10, 11, 12, 13, 14, 15, 10, 11, 12, 13, 14, 15]) c"

definition unescape :: "char \<Rightarrow> char option" where
  "unescape c =
     map_of [(quote, quote), (backslash, backslash), (CHR ''/'', CHR ''/''),
             (CHR ''b'', CHR 0x08), (CHR ''f'', CHR 0x0C), (CHR ''n'', LF),
             (CHR ''r'', CR), (CHR ''t'', CHR 0x09)] c"

definition emit :: "token \<Rightarrow> token list option \<Rightarrow> token list option" where
  "emit t r = map_option ((#) t) r"

fun lex :: "lex_state \<Rightarrow> string \<Rightarrow> token list option" where
  "lex Outside [] = Some []"
| "lex (Inside acc) [] = None"
| "lex (Escaped acc) [] = None"
| "lex (Unicode acc ds) [] = None"
| "lex Outside (c # cs) =
     (if json_ws c then lex Outside cs
      else if c = CHR ''{'' then emit LBrace (lex Outside cs)
      else if c = CHR ''}'' then emit RBrace (lex Outside cs)
      else if c = CHR '':'' then emit Colon (lex Outside cs)
      else if c = CHR '','' then emit Comma (lex Outside cs)
      else if c = quote then lex (Inside []) cs
      else None)"
| "lex (Inside acc) (c # cs) =
     (if c = quote then emit (Str acc) (lex Outside cs)
      else if c = backslash then lex (Escaped acc) cs
      else if (of_char c :: nat) < 32 then None
      else lex (Inside (acc @ [c])) cs)"
| "lex (Escaped acc) (c # cs) =
     (if c = CHR ''u'' then lex (Unicode acc []) cs
      else (case unescape c of
              None \<Rightarrow> None
            | Some x \<Rightarrow> lex (Inside (acc @ [x])) cs))"
| "lex (Unicode acc ds) (c # cs) =
     (case hex_value c of
        None \<Rightarrow> None
      | Some d \<Rightarrow>
          if length ds < 3 then lex (Unicode acc (ds @ [d])) cs
          else (let n = foldl (\<lambda>a h. 16 * a + h) 0 (ds @ [d])
                in if n < 256 then lex (Inside (acc @ [char_of n])) cs else None))"

fun members :: "token list \<Rightarrow> (string \<times> json) list option" where
  "members (Str k # Colon # Str v # t # ts) =
     (if t = RBrace \<and> ts = [] then Some [(k, JString v)]
      else if t = Comma then map_option ((#) (k, JString v)) (members ts)
      else None)"
| "members ts = None"

definition loads_record :: "string \<Rightarrow> decoded" where
  "loads_record s =
     (case lex Outside s of
        Some (LBrace # ts) \<Rightarrow>
          if ts = [RBrace] then Value (JObject [])
          else (case members ts of
                  Some ms \<Rightarrow> Value (JObject ms)
                | None \<Rightarrow> JSONDecodeError)
      | _ \<Rightarrow> JSONDecodeError)"

section \<open>The background worker\<close>

text \<open>
  The configuration and the outside world. The two intervals are the integers read from
  the environment. \<open>requests_get t url\<close> is what \<open>requests.get\<close> does at time \<open>t\<close>: \<open>Inr\<close>
  the text of the response, \<open>Inl\<close> the text of the exception.
\<close>

record env =
  BASE_URL_L :: "string option"
  BASE_URL_R :: "string option"
  SLEEP_SECONDS :: int
  BLOCK_SLEEP :: int
  CONTROL_TOKEN :: "string option"
  requests_get :: "nat \<Rightarrow> string \<Rightarrow> string + string"
  datetime_now :: "nat \<Rightarrow> string"
  write_fails :: "nat \<Rightarrow> bool"

text \<open>The dict \<open>state\<close>.\<close>

record snapshot =
  running :: bool
  last_plate :: "string option"
  last_status :: "string option"
  last_checked_at :: "string option"
  queue_remaining :: "int option"

text \<open>
  Where a thread running \<open>runner_loop\<close> stands: started and not yet in the function,
  before the pass of the \<open>for\<close> loop over \<open>combos[n]\<close>, returned, or ended by an
  exception.
\<close>

datatype loop_pc = Spawned | Iter nat | Finished | Crashed

text \<open>
  The program's globals and its surroundings: the dict \<open>state\<close>, the stop event, the
  handle \<open>worker_thread\<close>, every thread started so far, the data file, the time at which
  the outside world is next asked, and the seconds spent in \<open>time.sleep\<close>.
\<close>

record system =
  state :: snapshot
  stop_event :: bool
  worker_thread :: "nat option"
  threads :: "loop_pc list"
  data_file :: "stored list option"
  clock :: nat
  slept :: nat

definition initial :: "stored list option \<Rightarrow> system" where
  "initial file =
     \<lparr>state = \<lparr>running = False, last_plate = None, last_status = None,
               last_checked_at = None, queue_remaining = None\<rparr>,
      stop_event = False, worker_thread = None, threads = [],
      data_file = file, clock = 0, slept = 0\<rparr>"

text \<open>An f-string writes \<open>None\<close> as the word.\<close>

definition fmt :: "string option \<Rightarrow> string" where
  "fmt v = (case v of None \<Rightarrow> ''None'' | Some s \<Rightarrow> s)"

definition check_plate :: "env \<Rightarrow> nat \<Rightarrow> string \<Rightarrow> string" where
  "check_plate e t url =
     (case requests_get e t url of
        Inr text \<Rightarrow> (if text \<noteq> [] then text else [])
      | Inl exc \<Rightarrow> ''__ERROR__ '' @ exc)"

text \<open>\<open>time.sleep(secs)\<close> raises \<open>ValueError\<close> on a negative length.\<close>

definition time_sleep :: "int \<Rightarrow> system \<Rightarrow> error + system" where
  "time_sleep secs s =
     (if secs < 0 then Inl ValueError else Inr (s\<lparr>slept := slept s + nat secs\<rparr>))"

text \<open>
  \<open>runner_loop\<close> up to the loop, one pass of the loop, and the end. A pass gives the
  system as it leaves it and, when it ends by an exception, the exception: the one of
  \<open>save_result\<close> comes before the record and the snapshot are written, the one of
  \<open>time.sleep\<close> after.
\<close>

definition runner_begin :: "system \<Rightarrow> system" where
  "runner_begin s =
     s\<lparr>state := (state s)\<lparr>running := True,
                           queue_remaining := Some (int (length generate_combinations))\<rparr>\<rparr>"

definition runner_pass :: "env \<Rightarrow> nat \<Rightarrow> system \<Rightarrow> error option \<times> system" where
  "runner_pass e n s =
     (let total = length generate_combinations;
          idx = n + 1;
          plate = generate_combinations ! n;
          url = fmt (BASE_URL_L e) @ plate @ fmt (BASE_URL_R e);
          raw = check_plate e (clock s) url;
          (status, note) = parse_status raw
      in case save_result (write_fails e (clock s)) (datetime_now e (clock s))
                (data_file s) plate status note of
           Inl err \<Rightarrow> (Some err, s)
         | Inr file \<Rightarrow>
             (let s1 = s\<lparr>data_file := file,
                          state := (state s)\<lparr>last_plate := Some plate,
                                              last_status := Some status,
                                              last_checked_at := Some (datetime_now e (clock s + 1)),
                                              queue_remaining := Some (int total - int idx)\<rparr>,
                          clock := clock s + 2\<rparr>
              in case time_sleep (if status = ''blocked'' then BLOCK_SLEEP e
                                  else SLEEP_SECONDS e) s1 of
                   Inl err \<Rightarrow> (Some err, s1)
                 | Inr s2 \<Rightarrow> (None, s2)))"

definition runner_end :: "system \<Rightarrow> system" where
  "runner_end s = s\<lparr>state := (state s)\<lparr>running := False\<rparr>\<rparr>"

text \<open>
  Thread \<open>i\<close> runs to its next stop: an exception in a pass leaves \<open>runner_loop\<close> and
  ends the thread.
\<close>

definition run_thread :: "env \<Rightarrow> nat \<Rightarrow> system \<Rightarrow> system" where
  "run_thread e i s =
     (if length (threads s) \<le> i then s
      else case threads s ! i of
        Spawned \<Rightarrow> (runner_begin s)\<lparr>threads := (threads s)[i := Iter 0]\<rparr>
      | Iter n \<Rightarrow>
          if length generate_combinations \<le> n \<or> stop_event s
          then (runner_end s)\<lparr>threads := (threads s)[i := Finished]\<rparr>
          else (case runner_pass e n s of
                  (Some err, s') \<Rightarrow> s'\<lparr>threads := (threads s)[i := Crashed]\<rparr>
                | (None, s') \<Rightarrow> s'\<lparr>threads := (threads s)[i := Iter (Suc n)]\<rparr>)
      | Finished \<Rightarrow> s
      | Crashed \<Rightarrow> s)"

fun is_active :: "loop_pc \<Rightarrow> bool" where
  "is_active Spawned = True"
| "is_active (Iter n) = True"
| "is_active Finished = False"
| "is_active Crashed = False"

definition active_loops :: "system \<Rightarrow> nat" where
  "active_loops s = length (filter is_active (threads s))"

section \<open>The routes\<close>

datatype response = Json string nat | Abort nat string

text \<open>\<open>_require_token\<close> aborts when a token is configured and the request's differs.\<close>

definition token_rejected :: "env \<Rightarrow> string option \<Rightarrow> bool" where
  "token_rejected e token =
     (case CONTROL_TOKEN e of
        None \<Rightarrow> False
      | Some t \<Rightarrow> t \<noteq> [] \<and> token \<noteq> Some t)"

definition start :: "env \<Rightarrow> string option \<Rightarrow> system \<Rightarrow> response \<times> system" where
  "start e token s =
     (if token_rejected e token then (Abort 401 ''Missing or invalid token'', s)
      else if running (state s) then (Json ''Already running'' 200, s)
      else (Json ''Started'' 202,
            s\<lparr>stop_event := False,
              worker_thread := Some (length (threads s)),
              threads := threads s @ [Spawned]\<rparr>))"

definition stop :: "env \<Rightarrow> string option \<Rightarrow> system \<Rightarrow> response \<times> system" where
  "stop e token s =
     (if token_rejected e token then (Abort 401 ''Missing or invalid token'', s)
      else if \<not> running (state s) then (Json ''Not running'' 200, s)
      else (Json ''Stopping'' 202, s\<lparr>stop_event := True\<rparr>))"

text \<open>
  A run of the program: requests to \<open>/start\<close> and \<open>/stop\<close> with their token, and turns
  of the threads, one after the other. The responses are collected in order.
\<close>

datatype event = GetStart "string option" | GetStop "string option" | Run nat

fun step :: "env \<Rightarrow> event \<Rightarrow> response list \<times> system \<Rightarrow> response list \<times> system" where
  "step e (GetStart token) (rs, s) = (case start e token s of (r, s') \<Rightarrow> (rs @ [r], s'))"
| "step e (GetStop token) (rs, s) = (case stop e token s of (r, s') \<Rightarrow> (rs @ [r], s'))"
| "step e (Run i) (rs, s) = (rs, run_thread e i s)"

definition exec :: "env \<Rightarrow> event list \<Rightarrow> system \<Rightarrow> response list \<times> system" where
  "exec e evs s = fold (step e) evs ([], s)"

section \<open>Example inputs\<close>


definition call1 :: call where
  "call1 = (False, ''2025-01-01T10:00:00'', ''AA'', ''issued'', [])"

definition call2 :: call where
  "call2 = (False, ''2025-01-01T10:01:00'', ''AB'', ''unknown'', ''<html>'' @ [quote, LF])"

definition cut_record :: "stored list" where
  "cut_record =
     map Character (''{'' @ [quote] @ ''plate'' @ [quote] @ '': '' @ [quote] @ ''AC'' @ [quote]
                    @ '', '' @ [quote] @ ''note'' @ [quote] @ '': '' @ [quote] @ ''caf'')
     @ [Undecodable]"

section \<open>Facts about the string operations\<close>

lemma startswith_iff: "startswith s p \<longleftrightarrow> (\<exists>r. s = p @ r)"
  by (induction s p rule: startswith.induct) auto

lemma contains_iff: "contains sub s \<longleftrightarrow> (\<exists>a b. s = a @ sub @ b)"
proof (induction s)
  case Nil
  then show ?case by auto
next
  case (Cons c cs)
  show ?case
  proof
    assume "contains sub (c # cs)"
    then consider "startswith (c # cs) sub" | "contains sub cs" by auto
    then show "\<exists>a b. c # cs = a @ sub @ b"
    proof cases
      case 1
      then obtain r where "c # cs = sub @ r" by (auto simp: startswith_iff)
      then have "c # cs = [] @ sub @ r" by simp
      then show ?thesis by blast
    next
      case 2
      with Cons obtain a b where "cs = a @ sub @ b" by auto
      then have "c # cs = (c # a) @ sub @ b" by simp
      then show ?thesis by blast
    qed
  next
    assume "\<exists>a b. c # cs = a @ sub @ b"
    then obtain a b where ab: "c # cs = a @ sub @ b" by blast
    show "contains sub (c # cs)"
    proof (cases a)
      case Nil
      with ab have "startswith (c # cs) sub" by (auto simp: startswith_iff)
      then show ?thesis by simp
    next
      case (Cons x a')
      with ab have "cs = a' @ sub @ b" by simp
      with Cons.IH have "contains sub cs" by blast
      then show ?thesis by simp
    qed
  qed
qed

section \<open>The generator: 676 codes in order\<close>

lemma length_two_letters: "length (two_letters ls) = length ls * length ls"
  by (simp add: two_letters_def length_concat comp_def sum_list_triv)

lemma set_two_letters: "set (two_letters ls) = {[a, b] | a b. a \<in> set ls \<and> b \<in> set ls}"
  by (auto simp: two_letters_def)

lemma sorted_rows:
  "sorted_wrt (<) (ls :: string) \<Longrightarrow> sorted_wrt (<) (xs :: string) \<Longrightarrow>
   sorted_wrt (<) (concat (map (\<lambda>a. map (\<lambda>b. [a, b]) ls) xs))"
proof (induction xs)
  case Nil
  then show ?case by simp
next
  case (Cons x xs)
  have row: "sorted_wrt (<) (map (\<lambda>b. [x, b]) ls)"
    using Cons.prems(1) by (simp add: sorted_wrt_map)
  have rest: "sorted_wrt (<) (concat (map (\<lambda>a. map (\<lambda>b. [a, b]) ls) xs))"
    using Cons by simp
  have cross: "\<forall>u \<in> set (map (\<lambda>b. [x, b]) ls).
      \<forall>v \<in> set (concat (map (\<lambda>a. map (\<lambda>b. [a, b]) ls) xs)). u < v"
    using Cons.prems(2) by auto
  show ?case
    using row rest cross by (simp add: sorted_wrt_append)
qed

lemma sorted_two_letters: "sorted_wrt (<) ls \<Longrightarrow> sorted_wrt (<) (two_letters ls)"
  by (simp add: two_letters_def sorted_rows)

lemma sorted_letters: "sorted_wrt (<) letters"
  by (simp add: letters_def less_char_def)

lemma nth_rows:
  "i < length xs * length ls \<Longrightarrow>
   concat (map (\<lambda>a. map (\<lambda>b. [a, b]) ls) xs) ! i = [xs ! (i div length ls), ls ! (i mod length ls)]"
proof (induction xs arbitrary: i)
  case Nil
  then show ?case by simp
next
  case (Cons x xs)
  show ?case
  proof (cases "i < length ls")
    case True
    then show ?thesis by (simp add: nth_append)
  next
    case False
    then have ge: "length ls \<le> i" by simp
    from Cons.prems have pos: "0 < length ls" by (cases ls) auto
    from Cons.prems have "i - length ls < length xs * length ls" using ge by simp
    note IH = Cons.IH[OF this]
    have d: "i div length ls = Suc ((i - length ls) div length ls)"
      using pos ge by (simp add: le_div_geq)
    have m: "i mod length ls = (i - length ls) mod length ls"
      using ge by (simp add: le_mod_geq)
    show ?thesis using ge IH by (simp add: nth_append d m)
  qed
qed

lemma length_letters: "length letters = 26"
  by (simp add: letters_def)

lemma nth_generate_combinations: "i < 676 \<Longrightarrow> generate_combinations ! i = [letters ! (i div 26), letters ! (i mod 26)]"
  using nth_rows[of i letters letters] by (simp add: generate_combinations_def two_letters_def length_letters)

lemma length_generate_combinations: "length generate_combinations = 676"
  by (simp add: generate_combinations_def length_two_letters length_letters)

lemma hd_generate_combinations: "hd generate_combinations = ''AA''"
proof -
  have "generate_combinations \<noteq> []" using length_generate_combinations by auto
  then have "hd generate_combinations = generate_combinations ! 0" by (simp add: hd_conv_nth)
  also have "\<dots> = [letters ! 0, letters ! 0]" using nth_generate_combinations[of 0] by simp
  also have "\<dots> = ''AA''" by (simp add: letters_def)
  finally show ?thesis .
qed

lemma last_generate_combinations: "last generate_combinations = ''ZZ''"
proof -
  have "generate_combinations \<noteq> []" using length_generate_combinations by auto
  then have "last generate_combinations = generate_combinations ! 675"
    by (simp add: last_conv_nth length_generate_combinations)
  also have "\<dots> = [letters ! 25, letters ! 25]" using nth_generate_combinations[of 675] by simp
  also have "\<dots> = ''ZZ''" by (simp add: letters_def)
  finally show ?thesis .
qed

lemma distinct_two_letters: "sorted_wrt (<) ls \<Longrightarrow> distinct (two_letters ls)"
  using sorted_two_letters strict_sorted_iff by blast


text \<open>
  Claim C4. \<open>generate_combinations\<close> has exactly 676 elements, all distinct; they are
  exactly the two-letter words over the 26 capital letters; the list is strictly increasing
  in the lexicographic order on (first letter, second letter), it starts with \<open>AA\<close> and
  ends with \<open>ZZ\<close>. The function takes no argument and reads no state: it denotes one
  list, the same at every call.
\<close>

theorem generate_combinations_spec:
  "length generate_combinations = 676 \<and>
   distinct generate_combinations \<and>
   sorted_wrt (<) generate_combinations \<and>
   set generate_combinations = {[a, b] | a b. a \<in> set letters \<and> b \<in> set letters} \<and>
   length letters = 26 \<and> distinct letters \<and>
   hd generate_combinations = ''AA'' \<and> last generate_combinations = ''ZZ''"
proof -
  have d: "distinct letters"
    using sorted_letters strict_sorted_iff by blast
  show ?thesis
    using length_generate_combinations sorted_letters d length_letters
      hd_generate_combinations last_generate_combinations
    by (simp add: generate_combinations_def sorted_two_letters distinct_two_letters
        set_two_letters)
qed

section \<open>The classifier: five rules, the first match wins\<close>

text \<open>
  Claim C3. \<open>parse_status\<close> applies five rules in order. A text that starts with
  \<open>__ERROR__\<close> gives \<open>error\<close> and the text itself, sentinel and failure description,
  as the note. Otherwise a text that contains the rate-limit phrase gives \<open>blocked\<close> and
  \<open>rate-limited\<close>; otherwise one that contains \<open>Plate is issued\<close> gives \<open>issued\<close>;
  otherwise one whose lowercasing contains \<open>available\<close> gives \<open>available\<close>; otherwise
  the result is \<open>unknown\<close> with the first 200 characters. Each rule is stated under the
  failure of the earlier ones only, so a later phrase in the text changes nothing.
\<close>

theorem parse_status_policy:
  "((\<exists>r. s = ''__ERROR__'' @ r) \<longrightarrow> parse_status s = (''error'', s)) \<and>
   (\<not> (\<exists>r. s = ''__ERROR__'' @ r) \<and>
    (\<exists>a b. s = a @ ''You have reached the maximum plate preview attempts'' @ b)
      \<longrightarrow> parse_status s = (''blocked'', ''rate-limited'')) \<and>
   (\<not> (\<exists>r. s = ''__ERROR__'' @ r) \<and>
    \<not> (\<exists>a b. s = a @ ''You have reached the maximum plate preview attempts'' @ b) \<and>
    (\<exists>a b. s = a @ ''Plate is issued'' @ b)
      \<longrightarrow> parse_status s = (''issued'', '''')) \<and>
   (\<not> (\<exists>r. s = ''__ERROR__'' @ r) \<and>
    \<not> (\<exists>a b. s = a @ ''You have reached the maximum plate preview attempts'' @ b) \<and>
    \<not> (\<exists>a b. s = a @ ''Plate is issued'' @ b) \<and>
    (\<exists>a b. lower s = a @ ''available'' @ b)
      \<longrightarrow> parse_status s = (''available'', '''')) \<and>
   (\<not> (\<exists>r. s = ''__ERROR__'' @ r) \<and>
    \<not> (\<exists>a b. s = a @ ''You have reached the maximum plate preview attempts'' @ b) \<and>
    \<not> (\<exists>a b. s = a @ ''Plate is issued'' @ b) \<and>
    \<not> (\<exists>a b. lower s = a @ ''available'' @ b)
      \<longrightarrow> parse_status s = (''unknown'', take 200 s))"
  unfolding parse_status_def startswith_iff contains_iff
    error_sentinel_def blocked_phrase_def issued_phrase_def
  by presburger

theorem parse_status_policy_witness:
  "parse_status ''__ERROR__ timed out. Plate is issued'' = (''error'', ''__ERROR__ timed out. Plate is issued'') \<and>
   parse_status ''You have reached the maximum plate preview attempts. Plate is issued''
     = (''blocked'', ''rate-limited'') \<and>
   parse_status ''Plate is issued; others AVAILABLE'' = (''issued'', '''') \<and>
   parse_status ''This plate is AvailABLE'' = (''available'', '''') \<and>
   parse_status ''no such page'' = (''unknown'', ''no such page'')"
proof -
  let ?e = "''__ERROR__ timed out. Plate is issued''"
  let ?b = "''You have reached the maximum plate preview attempts. Plate is issued''"
  let ?i = "''Plate is issued; others AVAILABLE''"
  let ?a = "''This plate is AvailABLE''"
  let ?u = "''no such page''"
  have e: "\<exists>r. ?e = ''__ERROR__'' @ r" by simp
  have b1: "\<not> (\<exists>r. ?b = ''__ERROR__'' @ r)" by simp
  have b2: "\<exists>a b. ?b = a @ ''You have reached the maximum plate preview attempts'' @ b"
    unfolding contains_iff[symmetric] by simp
  have i1: "\<not> (\<exists>r. ?i = ''__ERROR__'' @ r)" by simp
  have i2: "\<not> (\<exists>a b. ?i = a @ ''You have reached the maximum plate preview attempts'' @ b)"
    unfolding contains_iff[symmetric] by simp
  have i3: "\<exists>a b. ?i = a @ ''Plate is issued'' @ b"
    unfolding contains_iff[symmetric] by simp
  have a1: "\<not> (\<exists>r. ?a = ''__ERROR__'' @ r)" by simp
  have a2: "\<not> (\<exists>a b. ?a = a @ ''You have reached the maximum plate preview attempts'' @ b)"
    unfolding contains_iff[symmetric] by simp
  have a3: "\<not> (\<exists>a b. ?a = a @ ''Plate is issued'' @ b)"
    unfolding contains_iff[symmetric] by simp
  have a4: "\<exists>a b. lower ?a = a @ ''available'' @ b"
    unfolding contains_iff[symmetric] by (simp add: lower_def lower_char_def)
  have u1: "\<not> (\<exists>r. ?u = ''__ERROR__'' @ r)" by simp
  have u2: "\<not> (\<exists>a b. ?u = a @ ''You have reached the maximum plate preview attempts'' @ b)"
    unfolding contains_iff[symmetric] by simp
  have u3: "\<not> (\<exists>a b. ?u = a @ ''Plate is issued'' @ b)"
    unfolding contains_iff[symmetric] by simp
  have u4: "\<not> (\<exists>a b. lower ?u = a @ ''available'' @ b)"
    unfolding contains_iff[symmetric] by (simp add: lower_def lower_char_def)
  show ?thesis
    using parse_status_policy[of ?e] parse_status_policy[of ?b] parse_status_policy[of ?i]
      parse_status_policy[of ?a] parse_status_policy[of ?u]
      e b1 b2 i1 i2 i3 a1 a2 a3 a4 u1 u2 u3 u4
    by simp
qed

text \<open>
  Claim C8. \<open>parse_status\<close> gives a pair for every string, its status is one of the five
  words, and the empty string gives \<open>unknown\<close> with an empty note.
\<close>

theorem parse_status_total:
  "fst (parse_status s) \<in> {''issued'', ''available'', ''blocked'', ''error'', ''unknown''} \<and>
   parse_status [] = (''unknown'', [])"
  by (simp add: parse_status_def error_sentinel_def blocked_phrase_def issued_phrase_def lower_def)


section \<open>The store: one record, one line\<close>

lemma hex_digit_in: "hex_digit n \<in> set ''0123456789abcdef''"
proof -
  have "n mod 16 < length ''0123456789abcdef''" by simp
  then show ?thesis unfolding hex_digit_def by (rule nth_mem)
qed

lemma hex_digit_not_newline: "hex_digit n \<noteq> LF \<and> hex_digit n \<noteq> CR"
  using hex_digit_in[of n] by (auto simp: LF_def CR_def)

lemma escape_char_no_newline: "LF \<notin> set (escape_char c) \<and> CR \<notin> set (escape_char c)"
  using hex_digit_not_newline[of "of_char c div 16"] hex_digit_not_newline[of "of_char c mod 16"]
  by (auto simp: escape_char_def LF_def CR_def backslash_def quote_def)

lemma json_string_no_newline: "LF \<notin> set (json_string s) \<and> CR \<notin> set (json_string s)"
  using escape_char_no_newline by (auto simp: json_string_def LF_def CR_def quote_def)

lemma json_members_no_newline: "LF \<notin> set (json_members d) \<and> CR \<notin> set (json_members d)"
  using json_string_no_newline
  by (induction d rule: json_members.induct) (auto simp: LF_def CR_def)

lemma json_dumps_no_newline: "LF \<notin> set (json_dumps d) \<and> CR \<notin> set (json_dumps d)"
  using json_members_no_newline[of d] by (auto simp: json_dumps_def LF_def CR_def)

lemma strip_json_dumps: "strip (json_dumps d @ [LF]) = json_dumps d"
  by (simp add: strip_def json_dumps_def isspace_def LF_def)

lemma json_dumps_not_empty: "json_dumps d \<noteq> []"
  by (simp add: json_dumps_def)

lemma readlines_from_line:
  "LF \<notin> set l \<Longrightarrow> CR \<notin> set l \<Longrightarrow>
   readlines_from False cur (l @ LF # rest) = (cur @ l @ [LF]) # readlines_from False [] rest"
  by (induction l arbitrary: cur) auto

lemma readlines_lines:
  "\<forall>l \<in> set ls. LF \<notin> set l \<and> CR \<notin> set l \<Longrightarrow>
   readlines (concat (map (\<lambda>l. l @ [LF]) ls)) = map (\<lambda>l. l @ [LF]) ls"
  unfolding readlines_def
  by (induction ls) (auto simp: readlines_from_line)

lemma decode_characters: "decode (map Character t) = Some t"
  by (induction t) auto

lemma decode_undecodable: "Undecodable \<in> set items \<Longrightarrow> decode items = None"
  by (induction items rule: decode.induct) auto

lemma save_all_content:
  "save_all f0 calls = Inr f' \<Longrightarrow>
   content_of f' = content_of f0
     @ map Character (concat (map (\<lambda>c. json_dumps (record_of c) @ [LF]) calls)) \<and>
   (f' = None \<longleftrightarrow> f0 = None \<and> calls = [])"
proof (induction calls arbitrary: f0)
  case Nil
  then show ?case by simp
next
  case (Cons c calls)
  obtain fails now plate status nt where c: "c = (fails, now, plate, status, nt)"
    by (cases c) auto
  from Cons.prems c obtain f where
    f: "save_result fails now f0 plate status nt = Inr f" and rest: "save_all f calls = Inr f'"
    by (auto split: sum.splits)
  from f have ft: "content_of f = content_of f0 @ map Character (json_dumps (record_of c) @ [LF])"
    and "f \<noteq> None"
    by (auto simp: save_result_def c split: if_splits)
  with Cons.IH[OF rest] show ?case by auto
qed

lemma read_rows_acc:
  "\<forall>l \<in> set ls. strip l \<noteq> [] \<longrightarrow> loads (strip l) \<noteq> OtherError \<Longrightarrow>
   read_rows loads ls rows =
   Some (rows @ List.map_filter (\<lambda>l. value_of (loads l)) (filter (\<lambda>l. l \<noteq> []) (map strip ls)))"
proof (induction ls arbitrary: rows)
  case Nil
  then show ?case by (simp add: List.map_filter_simps)
next
  case (Cons l ls)
  then have IH: "\<And>rows. read_rows loads ls rows =
      Some (rows @ List.map_filter (\<lambda>l. value_of (loads l)) (filter (\<lambda>l. l \<noteq> []) (map strip ls)))"
    by simp
  from Cons.prems have ok: "strip l \<noteq> [] \<longrightarrow> loads (strip l) \<noteq> OtherError" by simp
  show ?case
    using ok by (cases "loads (strip l)") (simp_all add: IH List.map_filter_simps Let_def)
qed

lemma read_rows_other:
  "l \<in> set ls \<Longrightarrow> strip l \<noteq> [] \<Longrightarrow> loads (strip l) = OtherError \<Longrightarrow>
   read_rows loads ls rows = None"
proof (induction ls arbitrary: rows)
  case Nil
  then show ?case by simp
next
  case (Cons x xs)
  show ?case
  proof (cases "x = l")
    case True
    with Cons.prems show ?thesis by (simp add: Let_def)
  next
    case False
    with Cons.prems have "l \<in> set xs" by simp
    from Cons.IH[OF this Cons.prems(2,3)] show ?thesis
      by (cases "loads (strip x)") (simp_all add: Let_def)
  qed
qed

lemma load_results_undecodable:
  "Undecodable \<in> set items \<Longrightarrow> load_results loads (Some items) limit = None"
  by (simp add: load_results_def decode_undecodable)

lemma load_results_other_error:
  assumes "decode items = Some text" and "l \<in> set (readlines text)"
    and "strip l \<noteq> []" and "loads (strip l) = OtherError"
  shows "load_results loads (Some items) limit = None"
  using assms read_rows_other[of l "readlines text" loads "[]"]
  by (simp add: load_results_def)

lemma load_results_decodable:
  assumes "decode items = Some text"
    and "\<forall>l \<in> set (readlines text). strip l \<noteq> [] \<longrightarrow> loads (strip l) \<noteq> OtherError"
  shows "load_results loads (Some items) None =
     Some (rev (List.map_filter (\<lambda>l. value_of (loads l))
                 (filter (\<lambda>l. l \<noteq> []) (map strip (readlines text)))))"
  using assms read_rows_acc[OF assms(2), of "[]"]
  by (simp add: load_results_def)

lemma load_results_limit:
  "load_results loads f (Some n) =
     map_option (\<lambda>rows. if n = 0 then rows
                         else if 0 < n then take (nat n) rows
                         else take (length rows - nat (- n)) rows)
       (load_results loads f None)"
proof -
  have neg: "n < 0 \<Longrightarrow> nat (int k + n) = k - nat (- n)" for k :: nat
    by linarith
  show ?thesis
    by (auto simp: load_results_def slice_to_def Let_def neg split: option.splits)
qed

subsection \<open>The decoder inverts the encoder\<close>

lemma hex_value_hex_digit: "k < 16 \<Longrightarrow> hex_value (hex_digit k) = Some k"
proof -
  assume "k < 16"
  then have "k = 0 \<or> k = 1 \<or> k = 2 \<or> k = 3 \<or> k = 4 \<or> k = 5 \<or> k = 6 \<or> k = 7 \<or>
    k = 8 \<or> k = 9 \<or> k = 10 \<or> k = 11 \<or> k = 12 \<or> k = 13 \<or> k = 14 \<or> k = 15"
    by arith
  then show ?thesis
    by (elim disjE) (simp_all add: hex_value_def hex_digit_def)
qed

lemma lex_escape_char:
  "lex (Inside acc) (escape_char c @ rest) = lex (Inside (acc @ [c])) rest"
proof -
  let ?n = "of_char c :: nat"
  consider (named) "c \<in> {backslash, quote, CHR 0x08, CHR 0x0C, LF, CR, CHR 0x09}"
    | (ctl) "c \<notin> {backslash, quote, CHR 0x08, CHR 0x0C, LF, CR, CHR 0x09}" "?n < 32"
    | (plain) "c \<notin> {backslash, quote, CHR 0x08, CHR 0x0C, LF, CR, CHR 0x09}" "\<not> ?n < 32"
    by blast
  then show ?thesis
  proof cases
    case named
    then show ?thesis
      by (auto simp: escape_char_def unescape_def backslash_def quote_def LF_def CR_def)
  next
    case ctl
    have hi: "?n div 16 < 16" and lo: "?n mod 16 < 16" using ctl(2) by auto
    have val: "16 * (?n div 16) + ?n mod 16 = ?n" by simp
    have esc: "escape_char c = [backslash, CHR ''u'', CHR ''0'', CHR ''0'',
        hex_digit (?n div 16), hex_digit (?n mod 16)]"
      using ctl by (simp add: escape_char_def)
    have bq: "backslash \<noteq> quote" by (simp add: backslash_def quote_def)
    have z: "hex_value CHR ''0'' = Some 0" by (simp add: hex_value_def)
    have small: "?n < 256" using ctl(2) by simp
    show ?thesis
      unfolding esc
      by (simp add: bq z hex_value_hex_digit[OF hi] hex_value_hex_digit[OF lo] val small)
  next
    case plain
    then show ?thesis
      by (simp add: escape_char_def)
  qed
qed

lemma lex_inside:
  "lex (Inside acc) (concat (map escape_char s) @ quote # rest) =
   emit (Str (acc @ s)) (lex Outside rest)"
  by (induction s arbitrary: acc) (simp_all add: lex_escape_char)

lemma lex_json_string:
  "lex Outside (json_string s @ rest) = emit (Str s) (lex Outside rest)"
  using lex_inside[of "[]" s rest]
  by (simp add: json_string_def json_ws_def quote_def LF_def CR_def)

lemma lex_json_members:
  "d \<noteq> [] \<Longrightarrow>
   \<exists>ts. lex Outside (json_members d @ ''}'') = Some ts \<and> ts \<noteq> [RBrace] \<and>
        members ts = Some (map (\<lambda>(k, v). (k, JString v)) d)"
proof (induction d rule: json_members.induct)
  case 1
  then show ?case by simp
next
  case (2 k v)
  have "lex Outside (json_members [(k, v)] @ ''}'') = Some [Str k, Colon, Str v, RBrace]"
    by (simp add: lex_json_string emit_def json_ws_def quote_def LF_def CR_def)
  then show ?case by simp
next
  case (3 k v m ms)
  then obtain ts where ts: "lex Outside (json_members (m # ms) @ ''}'') = Some ts"
    and mem: "members ts = Some (map (\<lambda>(k, v). (k, JString v)) (m # ms))"
    by auto
  have "lex Outside (json_members ((k, v) # m # ms) @ ''}'') =
        Some (Str k # Colon # Str v # Comma # ts)"
    using ts by (simp add: lex_json_string emit_def json_ws_def quote_def LF_def CR_def)
  then show ?case using mem by simp
qed

lemma loads_record_json_dumps: "loads_record (json_dumps d) = Value (json_of_dict d)"
proof (cases "d = []")
  case True
  then show ?thesis
    by (simp add: loads_record_def json_dumps_def json_of_dict_def emit_def json_ws_def
        quote_def LF_def CR_def)
next
  case False
  from lex_json_members[OF this] obtain ts where
    ts: "lex Outside (json_members d @ ''}'') = Some ts" "ts \<noteq> [RBrace]"
      "members ts = Some (map (\<lambda>(k, v). (k, JString v)) d)"
    by blast
  then show ?thesis
    by (simp add: loads_record_def json_dumps_def json_of_dict_def emit_def json_ws_def
        quote_def LF_def CR_def)
qed

subsection \<open>Appending, then scanning\<close>

lemma read_rows_dumps:
  assumes "\<forall>d \<in> set ds. loads (json_dumps d) = Value (json_of_dict d)"
  shows "read_rows loads (map (\<lambda>d. json_dumps d @ [LF]) ds) rows
         = Some (rows @ map json_of_dict ds)"
  using assms
  by (induction ds arbitrary: rows) (simp_all add: strip_json_dumps json_dumps_not_empty)

lemma stored_rows:
  assumes saved: "save_all None calls = Inr f"
    and dec: "\<forall>c \<in> set calls. loads (json_dumps (record_of c)) = Value (json_of_dict (record_of c))"
  shows "load_results loads f None = Some (rev (map (\<lambda>c. json_of_dict (record_of c)) calls))"
proof (cases f)
  case None
  with save_all_content[OF saved] have "calls = []" by simp
  with None show ?thesis by (simp add: load_results_def)
next
  case (Some items)
  let ?ds = "map record_of calls"
  let ?t = "concat (map (\<lambda>c. json_dumps (record_of c) @ [LF]) calls)"
  from save_all_content[OF saved] Some
  have items: "items = map Character ?t"
    by simp
  have "\<forall>l \<in> set (map json_dumps ?ds). LF \<notin> set l \<and> CR \<notin> set l"
    using json_dumps_no_newline by auto
  then have "readlines (concat (map (\<lambda>l. l @ [LF]) (map json_dumps ?ds)))
      = map (\<lambda>l. l @ [LF]) (map json_dumps ?ds)"
    by (rule readlines_lines)
  then have lines: "readlines ?t = map (\<lambda>c. json_dumps (record_of c) @ [LF]) calls"
    by (simp add: comp_def)
  have "\<forall>d \<in> set ?ds. loads (json_dumps d) = Value (json_of_dict d)"
    using dec by auto
  from read_rows_dumps[OF this, of "[]"]
  have "read_rows loads (map (\<lambda>c. json_dumps (record_of c) @ [LF]) calls) []
      = Some (map (\<lambda>c. json_of_dict (record_of c)) calls)"
    by (simp add: comp_def)
  then have "read_rows loads (readlines ?t) [] = Some (map (\<lambda>c. json_of_dict (record_of c)) calls)"
    by (simp only: lines)
  then show ?thesis
    unfolding Some items load_results_def
    by (simp add: decode_characters)
qed

lemma load_results_text:
  "load_results loads (Some (map Character t)) None
   = map_option rev (read_rows loads (readlines t) [])"
  by (simp add: load_results_def decode_characters split: option.splits)

lemma mixed_store_example:
  "load_results loads_record
     (Some (map Character
        (json_dumps (record_of call1) @ [LF] @ ''{'' @ [quote] @ ''plate'' @ [quote] @ '': '' @ [LF]
         @ [LF] @ json_dumps (record_of call2) @ [LF] @ ''{'' @ [quote] @ ''pla''))) None
   = Some [json_of_dict (record_of call2), json_of_dict (record_of call1)]"
proof -
  let ?bad1 = "''{'' @ [quote] @ ''plate'' @ [quote] @ '': ''"
  let ?bad2 = "''{'' @ [quote] @ ''pla''"
  have nl: "LF \<notin> set ?bad1" "CR \<notin> set ?bad1" "LF \<notin> set ?bad2" "CR \<notin> set ?bad2"
    by (simp_all add: LF_def CR_def quote_def)
  have b1: "loads_record (strip (?bad1 @ [LF])) = JSONDecodeError" "strip (?bad1 @ [LF]) \<noteq> []"
    by (simp_all add: strip_def isspace_def LF_def quote_def loads_record_def emit_def json_ws_def CR_def backslash_def)
  have b2: "loads_record (strip ?bad2) = JSONDecodeError" "strip ?bad2 \<noteq> []"
    by (simp_all add: strip_def isspace_def LF_def quote_def loads_record_def emit_def json_ws_def CR_def backslash_def)
  have e: "strip [LF] = []" by (simp add: strip_def isspace_def LF_def)
  have lines: "readlines (json_dumps (record_of call1) @ [LF] @ ?bad1 @ [LF] @ [LF]
      @ json_dumps (record_of call2) @ [LF] @ ?bad2)
    = [json_dumps (record_of call1) @ [LF], ?bad1 @ [LF], [LF],
       json_dumps (record_of call2) @ [LF], ?bad2]"
    unfolding readlines_def
    using readlines_from_line[of "json_dumps (record_of call1)" "[]"]
      readlines_from_line[of "json_dumps (record_of call2)" "[]"]
      readlines_from_line[of ?bad1 "[]"] readlines_from_line[of "[]" "[]"] nl
      json_dumps_no_newline
    by (simp add: LF_def CR_def quote_def)
  show ?thesis
    unfolding load_results_text
    using lines b1 b2 e
    by (simp add: strip_json_dumps json_dumps_not_empty loads_record_json_dumps)
qed

text \<open>
  Claim C6. A scan is to pass over each malformed record and to return the well-formed
  ones. It does so for a line that \<open>json.loads\<close> refuses with \<open>JSONDecodeError\<close> (lemmas
  \<open>load_results_decodable\<close> and \<open>mixed_store_example\<close>). It does not for a record whose
  write was cut inside the bytes of a character: the codec raises where the lines are
  read, outside the \<open>try\<close>, and the whole scan is lost together with the well-formed
  records before and after. Of the three stores below the first has the cut at the end of
  a character and is read; the other two have it inside a character.
\<close>

theorem cut_record_aborts_scan:
  "load_results loads_record
     (Some (map Character (json_dumps (record_of call1) @ [LF]) @ butlast cut_record)) None
     = Some [json_of_dict (record_of call1)] \<and>
   load_results loads_record
     (Some (map Character (json_dumps (record_of call1) @ [LF]) @ cut_record)) None
     = None \<and>
   load_results loads_record
     (Some (map Character (json_dumps (record_of call1) @ [LF]) @ cut_record
            @ map Character (json_dumps (record_of call2) @ [LF]))) None
     = None"
proof -
  let ?cut = "''{'' @ [quote] @ ''plate'' @ [quote] @ '': '' @ [quote] @ ''AC'' @ [quote]
              @ '', '' @ [quote] @ ''note'' @ [quote] @ '': '' @ [quote] @ ''caf''"
  have bl: "butlast cut_record = map Character ?cut"
    unfolding cut_record_def by (simp only: butlast_snoc)
  have un: "Undecodable \<in> set cut_record" by (simp add: cut_record_def)
  have bad: "loads_record (strip ?cut) = JSONDecodeError" "strip ?cut \<noteq> []"
    by (simp_all add: strip_def isspace_def LF_def quote_def loads_record_def emit_def
        json_ws_def CR_def backslash_def)
  have lines: "readlines (json_dumps (record_of call1) @ [LF] @ ?cut)
      = [json_dumps (record_of call1) @ [LF], ?cut]"
    unfolding readlines_def
    using readlines_from_line[of "json_dumps (record_of call1)" "[]" ?cut] json_dumps_no_newline
    by (simp add: LF_def CR_def quote_def)
  have eq: "map Character (json_dumps (record_of call1) @ [LF]) @ butlast cut_record
      = map Character (json_dumps (record_of call1) @ [LF] @ ?cut)"
    unfolding bl by simp
  have second: "load_results loads_record
     (Some (map Character (json_dumps (record_of call1) @ [LF] @ ?cut))) None
     = Some [json_of_dict (record_of call1)]"
    unfolding load_results_text
    using lines bad
    by (simp add: strip_json_dumps json_dumps_not_empty loads_record_json_dumps)
  have first: "load_results loads_record
     (Some (map Character (json_dumps (record_of call1) @ [LF]) @ butlast cut_record)) None
     = Some [json_of_dict (record_of call1)]"
    unfolding eq by (rule second)
  show ?thesis
    using first un by (simp add: load_results_undecodable)
qed

text \<open>
  Claim C10. With \<open>limit = 0\<close> \<open>load_results\<close> returns what it returns without a
  limit, and that is every record: for a store that can be read, the value of each line
  that decodes, newest first; for a store written by appends, each appended record. While
  the data file does not exist it returns the empty list, whatever the limit.
\<close>

theorem load_results_falsy_limit:
  "load_results loads None limit = Some [] \<and>
   load_results loads f (Some 0) = load_results loads f None \<and>
   (decode items = Some t \<and>
    (\<forall>l \<in> set (readlines t). strip l \<noteq> [] \<longrightarrow> loads (strip l) \<noteq> OtherError) \<longrightarrow>
      load_results loads (Some items) (Some 0) =
        Some (rev (List.map_filter (\<lambda>l. value_of (loads l))
                    (filter (\<lambda>l. l \<noteq> []) (map strip (readlines t)))))) \<and>
   (save_all None calls = Inr g \<and>
    (\<forall>c \<in> set calls. loads (json_dumps (record_of c)) = Value (json_of_dict (record_of c))) \<longrightarrow>
      load_results loads g (Some 0) = Some (rev (map (\<lambda>c. json_of_dict (record_of c)) calls)))"
proof -
  have zero: "load_results loads h (Some 0) = load_results loads h None" for h
    by (simp add: load_results_limit option.map_ident)
  have missing: "load_results loads None limit = Some []"
    by (simp add: load_results_def)
  show ?thesis
    using load_results_decodable[of items t loads] stored_rows[of calls g loads] missing
    by (simp add: zero)
qed

theorem load_results_falsy_limit_witness:
  "load_results loads_record
     (Some (map Character (json_dumps (record_of call1) @ [LF] @ json_dumps (record_of call2) @ [LF])))
     (Some 0)
   = Some [JObject [(''plate'', JString ''AB''), (''status'', JString ''unknown''),
                    (''note'', JString (''<html>'' @ [quote, LF])),
                    (''checked_at'', JString ''2025-01-01T10:01:00'')],
           JObject [(''plate'', JString ''AA''), (''status'', JString ''issued''),
                    (''note'', JString []),
                    (''checked_at'', JString ''2025-01-01T10:00:00'')]]"
proof -
  let ?g = "Some (map Character (json_dumps (record_of call1) @ [LF] @ json_dumps (record_of call2) @ [LF]))"
  have saved: "save_all None [call1, call2] = Inr ?g"
    by (simp add: call1_def call2_def save_result_def)
  have dec: "\<forall>c \<in> set [call1, call2].
      loads_record (json_dumps (record_of c)) = Value (json_of_dict (record_of c))"
    by (simp add: loads_record_json_dumps)
  from load_results_falsy_limit[of loads_record None None "[]" "[]" "[call1, call2]" ?g] saved dec
  have "load_results loads_record ?g (Some 0)
      = Some (rev (map (\<lambda>c. json_of_dict (record_of c)) [call1, call2]))"
    by blast
  then show ?thesis
    by (simp add: call1_def call2_def make_record_def json_of_dict_def)
qed

text \<open>
  Claim C5, as the program has it. After any sequence of successful appends to a fresh
  store, a scan without a limit returns the appended records, each once, in the reverse
  of the order of appending, provided \<open>json.loads\<close> reads back what \<open>json.dumps\<close> wrote.
  A positive limit \<open>n\<close> gives the first \<open>n\<close> of them. The limit 0 gives all of them, as no
  limit does, and a negative limit \<open>-n\<close> gives all but the last \<open>n\<close>.
\<close>

theorem scan_reverses_appends:
  assumes "save_all None calls = Inr f"
    and "\<forall>c \<in> set calls. loads (json_dumps (record_of c)) = Value (json_of_dict (record_of c))"
  shows "load_results loads f limit =
     Some (let rows = rev (map (\<lambda>c. json_of_dict (record_of c)) calls)
           in case limit of
                None \<Rightarrow> rows
              | Some n \<Rightarrow>
                  if n = 0 then rows
                  else if 0 < n then take (nat n) rows
                  else take (length rows - nat (- n)) rows)"
proof (cases limit)
  case None
  then show ?thesis using stored_rows[OF assms] by simp
next
  case (Some n)
  then show ?thesis
    using stored_rows[OF assms] load_results_limit[of loads f n] by (simp add: Let_def)
qed

theorem scan_reverses_appends_witness:
  "save_all None [call1, call2]
     = Inr (Some (map Character
              (json_dumps (record_of call1) @ [LF] @ json_dumps (record_of call2) @ [LF]))) \<and>
   load_results loads_record
     (Some (map Character
        (json_dumps (record_of call1) @ [LF] @ json_dumps (record_of call2) @ [LF]))) None
     = Some [json_of_dict (record_of call2), json_of_dict (record_of call1)] \<and>
   load_results loads_record
     (Some (map Character
        (json_dumps (record_of call1) @ [LF] @ json_dumps (record_of call2) @ [LF]))) (Some 1)
     = Some [json_of_dict (record_of call2)] \<and>
   load_results loads_record
     (Some (map Character
        (json_dumps (record_of call1) @ [LF] @ json_dumps (record_of call2) @ [LF]))) (Some (- 1))
     = Some [json_of_dict (record_of call2)]"
proof -
  let ?f = "Some (map Character
              (json_dumps (record_of call1) @ [LF] @ json_dumps (record_of call2) @ [LF]))"
  have saved: "save_all None [call1, call2] = Inr ?f"
    by (simp add: call1_def call2_def save_result_def)
  have dec: "\<forall>c \<in> set [call1, call2].
      loads_record (json_dumps (record_of c)) = Value (json_of_dict (record_of c))"
    by (simp add: loads_record_json_dumps)
  show ?thesis
    using saved scan_reverses_appends[OF saved dec, of None]
      scan_reverses_appends[OF saved dec, of "Some 1"]
      scan_reverses_appends[OF saved dec, of "Some (- 1)"]
    by simp
qed

text \<open>
  With the limit 0 the scan of a store of one record returns that record, not the first
  0 records.
\<close>

theorem limit_zero_counterexample:
  "save_all None [call1] = Inr (Some (map Character (json_dumps (record_of call1) @ [LF]))) \<and>
   load_results loads_record (Some (map Character (json_dumps (record_of call1) @ [LF]))) (Some 0)
     = Some [json_of_dict (record_of call1)] \<and>
   load_results loads_record (Some (map Character (json_dumps (record_of call1) @ [LF]))) (Some 0)
     \<noteq> Some (take 0 (rev (map (\<lambda>c. json_of_dict (record_of c)) [call1])))"
proof -
  let ?f = "Some (map Character (json_dumps (record_of call1) @ [LF]))"
  have saved: "save_all None [call1] = Inr ?f"
    by (simp add: call1_def save_result_def)
  have dec: "\<forall>c \<in> set [call1].
      loads_record (json_dumps (record_of c)) = Value (json_of_dict (record_of c))"
    by (simp add: loads_record_json_dumps)
  have "load_results loads_record ?f (Some 0) = Some [json_of_dict (record_of call1)]"
    using stored_rows[OF saved dec] load_results_limit[of loads_record ?f 0] by simp
  then show ?thesis using saved by simp
qed

section \<open>The worker and the routes\<close>

lemma token_accepted: "\<not> token_rejected e (CONTROL_TOKEN e)"
  by (simp add: token_rejected_def split: option.splits)

lemma start_while_running:
  "running (state s) \<Longrightarrow> \<not> token_rejected e token \<Longrightarrow>
   start e token s = (Json ''Already running'' 200, s)"
  by (simp add: start_def)

text \<open>
  Claim C1. At most one loop is to be active at any time. \<open>start\<close> does answer
  \<open>Already running\<close> and change nothing once \<open>running\<close> is set (lemma
  \<open>start_while_running\<close>), but the flag is set by the started thread, not by \<open>start\<close>:
  two requests to \<open>/start\<close>, the second after the first has returned and before the
  thread has taken its first step, are both answered \<open>Started\<close>, and two loops are
  then active side by side.
\<close>

theorem start_twice_spawns_two_loops:
  "(case exec e [GetStart (CONTROL_TOKEN e), GetStart (CONTROL_TOKEN e), Run 0, Run 1] (initial f) of
      (rs, s) \<Rightarrow>
        rs = [Json ''Started'' 202, Json ''Started'' 202] \<and>
        threads s = [Iter 0, Iter 0] \<and> active_loops s = 2)"
  by (simp add: exec_def start_def token_accepted initial_def run_thread_def runner_begin_def
      active_loops_def)

lemma exec_snoc: "exec e (evs @ [ev]) s = step e ev (exec e evs s)"
  by (simp add: exec_def)

lemma runner_pass_ok:
  assumes "\<not> write_fails e (clock s)" and "0 \<le> SLEEP_SECONDS e" and "0 \<le> BLOCK_SLEEP e"
  shows "\<exists>s'. runner_pass e n s = (None, s') \<and> threads s' = threads s \<and>
           stop_event s' = stop_event s \<and> running (state s') = running (state s) \<and>
           queue_remaining (state s') = Some (int (length generate_combinations) - int (n + 1)) \<and>
           last_plate (state s') = Some (generate_combinations ! n)"
  using assms
  by (simp add: runner_pass_def save_result_def time_sleep_def Let_def split: prod.splits)

lemma worker_progress:
  assumes ok: "\<forall>t. \<not> write_fails e t" and sl: "0 \<le> SLEEP_SECONDS e" "0 \<le> BLOCK_SLEEP e"
  shows "k \<le> 676 \<Longrightarrow>
     \<exists>s. exec e (GetStart (CONTROL_TOKEN e) # replicate (Suc k) (Run 0)) (initial f)
            = ([Json ''Started'' 202], s) \<and>
         threads s = [Iter k] \<and> \<not> stop_event s \<and> running (state s) \<and>
         queue_remaining (state s) = Some (676 - int k) \<and>
         (0 < k \<longrightarrow> last_plate (state s) = Some (generate_combinations ! (k - 1)))"
proof (induction k)
  case 0
  show ?case
    by (simp add: exec_def start_def token_accepted initial_def run_thread_def runner_begin_def
        length_generate_combinations)
next
  case (Suc k)
  then obtain s where
    ex: "exec e (GetStart (CONTROL_TOKEN e) # replicate (Suc k) (Run 0)) (initial f)
           = ([Json ''Started'' 202], s)"
    and th: "threads s = [Iter k]" and ns: "\<not> stop_event s" and ru: "running (state s)"
    by auto
  from ok have "\<not> write_fails e (clock s)" by simp
  from runner_pass_ok[OF this sl, of k] obtain s' where
    p: "runner_pass e k s = (None, s')" and th': "threads s' = threads s"
    and ns': "stop_event s' = stop_event s" and ru': "running (state s') = running (state s)"
    and q: "queue_remaining (state s') = Some (int (length generate_combinations) - int (k + 1))"
    and l: "last_plate (state s') = Some (generate_combinations ! k)"
    by blast
  have lt: "k < 676" using Suc.prems by simp
  have run: "run_thread e 0 s = s'\<lparr>threads := [Iter (Suc k)]\<rparr>"
    using th ns p lt by (simp add: run_thread_def length_generate_combinations)
  have "GetStart (CONTROL_TOKEN e) # replicate (Suc (Suc k)) (Run 0)
        = (GetStart (CONTROL_TOKEN e) # replicate (Suc k) (Run 0)) @ [Run 0]"
    by (simp add: replicate_append_same)
  then have "exec e (GetStart (CONTROL_TOKEN e) # replicate (Suc (Suc k)) (Run 0)) (initial f)
        = ([Json ''Started'' 202], s'\<lparr>threads := [Iter (Suc k)]\<rparr>)"
    using ex run by (simp only: exec_snoc step.simps)
  then show ?case
    using ns ns' ru ru' q l by (simp add: length_generate_combinations)
qed

lemma loop_end_resets_running:
  assumes "i < length (threads s)" and "threads s ! i = Iter n"
    and "676 \<le> n \<or> stop_event s"
  shows "threads (run_thread e i s) ! i = Finished \<and> \<not> running (state (run_thread e i s)) \<and>
         queue_remaining (state (run_thread e i s)) = queue_remaining (state s) \<and>
         last_plate (state (run_thread e i s)) = last_plate (state s)"
  using assms by (auto simp: run_thread_def runner_end_def length_generate_combinations)

lemma negative_sleep_ends_thread:
  assumes "i < length (threads s)" and "threads s ! i = Iter n" and "n < 676"
    and "\<not> stop_event s" and "\<not> write_fails e (clock s)"
    and "SLEEP_SECONDS e < 0" and "BLOCK_SLEEP e < 0"
  shows "threads (run_thread e i s) ! i = Crashed \<and>
         running (state (run_thread e i s)) = running (state s) \<and>
         (\<exists>line. data_file (run_thread e i s)
            = Some (content_of (data_file s) @ map Character (line @ [LF]))) \<and>
         last_plate (state (run_thread e i s)) = Some (generate_combinations ! n)"
  using assms
  by (auto simp: run_thread_def runner_pass_def save_result_def time_sleep_def Let_def
      length_generate_combinations split: prod.splits)

text \<open>
  Claim C2. After \<open>k\<close> codes the snapshot has \<open>queue_remaining = 676 - k\<close> and the
  \<open>k\<close>-th code as \<open>last_plate\<close> (lemma \<open>worker_progress\<close>), and \<open>running\<close> is reset
  when the loop ends by exhaustion or by the stop event (lemma
  \<open>loop_end_resets_running\<close>). It is not reset when \<open>save_result\<close> raises: the
  exception ends the thread before the last lines of \<open>runner_loop\<close>, no loop is active,
  \<open>running\<close> stays set, and the next \<open>/start\<close> is answered \<open>Already running\<close>. An
  exception of \<open>time.sleep\<close> does the same (lemma \<open>negative_sleep_ends_thread\<close>).
\<close>

theorem crash_leaves_running_set:
  "(case exec (e\<lparr>write_fails := \<lambda>t. True\<rparr>)
           [GetStart (CONTROL_TOKEN e), Run 0, Run 0, GetStart (CONTROL_TOKEN e)] (initial f) of
      (rs, s) \<Rightarrow>
        rs = [Json ''Started'' 202, Json ''Already running'' 200] \<and>
        threads s = [Crashed] \<and> active_loops s = 0 \<and> running (state s))"
proof -
  let ?e = "e\<lparr>write_fails := \<lambda>t. True\<rparr>"
  have tok: "\<not> token_rejected ?e (CONTROL_TOKEN e)"
    using token_accepted[of ?e] by simp
  have pass: "runner_pass ?e 0 s = (Some OSError, s)" for s
    by (simp add: runner_pass_def save_result_def Let_def split: prod.splits)
  show ?thesis
    by (simp add: exec_def start_def tok initial_def run_thread_def runner_begin_def
        active_loops_def length_generate_combinations pass)
qed




lemma stop_when_not_running:
  "\<not> running (state s) \<Longrightarrow> \<not> token_rejected e token \<Longrightarrow>
   stop e token s = (Json ''Not running'' 200, s)"
  by (simp add: stop_def)

lemma stop_keeps_snapshot: "state (snd (stop e token s)) = state s"
  by (simp add: stop_def)

lemma run_thread_keeps_loop:
  assumes ok: "\<forall>t. \<not> write_fails e t" and sl: "0 \<le> SLEEP_SECONDS e" "0 \<le> BLOCK_SLEEP e"
    and inv: "running (state s) \<longrightarrow> (\<exists>n. Iter n \<in> set (threads s))"
  shows "running (state (run_thread e i s)) \<longrightarrow> (\<exists>n. Iter n \<in> set (threads (run_thread e i s)))"
proof (cases "i < length (threads s)")
  case False
  then show ?thesis using inv by (simp add: run_thread_def)
next
  case True
  show ?thesis
  proof (cases "threads s ! i")
    case Spawned
    have "Iter 0 \<in> set ((threads s)[i := Iter 0])" using True by (rule set_update_memI)
    then show ?thesis using True Spawned by (auto simp: run_thread_def runner_begin_def)
  next
    case (Iter n)
    show ?thesis
    proof (cases "length generate_combinations \<le> n \<or> stop_event s")
      case True
      then show ?thesis using \<open>i < length (threads s)\<close> Iter
        by (simp add: run_thread_def runner_end_def)
    next
      case False
      from ok have "\<not> write_fails e (clock s)" by simp
      from runner_pass_ok[OF this sl, of n] obtain s' where
        p: "runner_pass e n s = (None, s')" by blast
      have "Iter (Suc n) \<in> set ((threads s)[i := Iter (Suc n)])"
        using \<open>i < length (threads s)\<close> by (rule set_update_memI)
      then show ?thesis using \<open>i < length (threads s)\<close> Iter False p
        by (auto simp: run_thread_def)
    qed
  next
    case Finished
    then show ?thesis using True inv by (simp add: run_thread_def)
  next
    case Crashed
    then show ?thesis using True inv by (simp add: run_thread_def)
  qed
qed

lemma running_has_loop:
  assumes ok: "\<forall>t. \<not> write_fails e t" and sl: "0 \<le> SLEEP_SECONDS e" "0 \<le> BLOCK_SLEEP e"
  shows "running (state (snd (exec e evs (initial f)))) \<longrightarrow>
         (\<exists>n. Iter n \<in> set (threads (snd (exec e evs (initial f)))))"
proof (induction evs rule: rev_induct)
  case Nil
  show ?case by (simp add: exec_def initial_def)
next
  case (snoc ev evs)
  obtain rs s where ex: "exec e evs (initial f) = (rs, s)" by (cases "exec e evs (initial f)")
  from snoc ex have inv: "running (state s) \<longrightarrow> (\<exists>n. Iter n \<in> set (threads s))" by simp
  show ?case
  proof (cases ev)
    case (GetStart token)
    then show ?thesis using inv ex by (auto simp: exec_snoc start_def)
  next
    case (GetStop token)
    then show ?thesis using inv ex by (auto simp: exec_snoc stop_def)
  next
    case (Run i)
    then show ?thesis
      using run_thread_keeps_loop[OF ok sl inv, of i] ex by (simp add: exec_snoc)
  qed
qed

lemma stop_when_idle_without_crash:
  assumes ok: "\<forall>t. \<not> write_fails e t" and sl: "0 \<le> SLEEP_SECONDS e" "0 \<le> BLOCK_SLEEP e"
    and idle: "active_loops (snd (exec e evs (initial f))) = 0"
    and tok: "\<not> token_rejected e token"
  shows "stop e token (snd (exec e evs (initial f)))
         = (Json ''Not running'' 200, snd (exec e evs (initial f)))"
proof -
  let ?s = "snd (exec e evs (initial f))"
  have "\<not> running (state ?s)"
  proof
    assume "running (state ?s)"
    with running_has_loop[OF ok sl, of evs f] obtain n where mem: "Iter n \<in> set (threads ?s)"
      by blast
    have "is_active (Iter n)" by simp
    with mem have "\<exists>x \<in> set (threads ?s). is_active x" by blast
    then have "filter is_active (threads ?s) \<noteq> []"
      by (simp add: filter_empty_conv)
    with idle show False by (simp add: active_loops_def)
  qed
  then show ?thesis using tok by (rule stop_when_not_running)
qed

text \<open>
  Claim C9. \<open>/stop\<close> on an idle worker is to answer \<open>Not running\<close> and to leave the
  snapshot as it is. \<open>stop\<close> never writes the snapshot (lemma \<open>stop_keeps_snapshot\<close>),
  and it answers \<open>Not running\<close> while \<open>running\<close> is not set (lemma
  \<open>stop_when_not_running\<close>), which is the case on an idle worker as long as no pass of
  the loop has ended by an exception (lemma \<open>stop_when_idle_without_crash\<close>). Once a
  failed write has ended the thread, no loop is active and \<open>running\<close> is still set:
  \<open>/stop\<close> then answers \<open>Stopping\<close> and sets the stop event.
\<close>

theorem stop_after_crash:
  "(case exec (e\<lparr>write_fails := \<lambda>t. True\<rparr>)
           [GetStart (CONTROL_TOKEN e), Run 0, Run 0, GetStop (CONTROL_TOKEN e)] (initial f) of
      (rs, s) \<Rightarrow>
        rs = [Json ''Started'' 202, Json ''Stopping'' 202] \<and>
        threads s = [Crashed] \<and> active_loops s = 0 \<and>
        stop_event s \<and> running (state s))"
proof -
  let ?e = "e\<lparr>write_fails := \<lambda>t. True\<rparr>"
  have tok: "\<not> token_rejected ?e (CONTROL_TOKEN e)"
    using token_accepted[of ?e] by simp
  have pass: "runner_pass ?e 0 s = (Some OSError, s)" for s
    by (simp add: runner_pass_def save_result_def Let_def split: prod.splits)
  show ?thesis
    by (simp add: exec_def start_def stop_def tok initial_def run_thread_def runner_begin_def
        active_loops_def length_generate_combinations pass)
qed

end
